theory Spec2Isabelle
  imports Complex_Main "HOL-Library.AList" "HOL-Library.Sublist" "HOL-Library.Monad_Syntax"
begin

section \<open>The Sankey generator script (app.py)\<close>

text \<open>
  The script is one module-level program. Its logic is embedded here step by step:
  the language table \<open>TRANS\<close>, the data holders filled by the upload loop and by the
  manual tab, the totals, the helper \<open>get_idx\<close> and the flow construction that
  fills the four Plotly lists.

  Conventions of the embedding.
  \<^item> Python \<open>str\<close> is \<open>string\<close>; a letter outside ASCII is written as its UTF-8 bytes,
    and \<open>str.lower\<close> is modelled on the ASCII letters only.
  \<^item> Python \<open>float\<close> is \<open>real\<close>: rounding, infinities and NaN are not modelled.
  \<^item> A \<open>dict\<close> is an association list in insertion order; \<open>d[k] = v\<close> is
    \<open>AList.update k v\<close>, which replaces the value of an existing key in place and
    appends a new key at the end, as Python does.
  \<^item> A call that can raise returns an \<open>option\<close>.
\<close>

subsection \<open>Language dictionary\<close>

datatype lang = English | Turkce

text \<open>The four entries of \<open>TRANS[lang]\<close> that the flow construction reads.\<close>

record trans =
  t_total_revenue :: string
  t_cogs_label :: string
  t_gross_profit :: string
  t_net_income :: string

fun TRANS :: "lang \<Rightarrow> trans" where
  "TRANS English =
     \<lparr>t_total_revenue = ''Total Revenue'',
      t_cogs_label = ''Cost of Revenue (COGS)'',
      t_gross_profit = ''Gross Profit'',
      t_net_income = ''Net Income''\<rparr>"
| "TRANS Turkce =
     \<lparr>t_total_revenue = ''Toplam Gelir'',
      t_cogs_label = ''Sat'' @ [CHR 0xC4, CHR 0xB1, CHR 0xC5, CHR 0x9F] @ ''lar''
                       @ [CHR 0xC4, CHR 0xB1] @ ''n Maliyeti (COGS)'',
      t_gross_profit = ''Br'' @ [CHR 0xC3, CHR 0xBC] @ ''t K'' @ [CHR 0xC3, CHR 0xA2] @ ''r'',
      t_net_income = ''Net K'' @ [CHR 0xC3, CHR 0xA2] @ ''r''\<rparr>"

subsection \<open>Data holders and the upload loop\<close>

record holders =
  revenue_items :: "(string \<times> real) list"
  cogs_value :: real
  expense_items :: "(string \<times> real) list"

definition empty_holders :: holders where
  "empty_holders = \<lparr>revenue_items = [], cogs_value = 0, expense_items = []\<rparr>"

text \<open>\<open>str.lower\<close>, on ASCII letters.\<close>

definition lower_char :: "char \<Rightarrow> char" where
  "lower_char c =
     (case map_of (zip ''ABCDEFGHIJKLMNOPQRSTUVWXYZ'' ''abcdefghijklmnopqrstuvwxyz'') c of
        Some d \<Rightarrow> d
      | None \<Rightarrow> c)"

definition lower :: "string \<Rightarrow> string" where
  "lower s = map lower_char s"

text \<open>The operator \<open>kw in s\<close> on strings: \<open>kw\<close> occurs in \<open>s\<close> at some position.\<close>

fun str_in :: "string \<Rightarrow> string \<Rightarrow> bool" where
  "str_in kw [] = (kw = [])"
| "str_in kw (c # cs) = (prefix kw (c # cs) \<or> str_in kw cs)"

text \<open>
  A row of the uploaded table, after \<open>str(row[0])\<close>, \<open>float(row[1])\<close> and
  \<open>str(row[2])\<close>: name, value, type. The rows are taken as well typed: a row whose
  value is not a number, which ends the loop in the script, is outside the model.
\<close>

type_synonym row = "string \<times> real \<times> string"

text \<open>The body of the loop \<open>for index, row in df.iterrows()\<close>.\<close>

definition process_row :: "row \<Rightarrow> holders \<Rightarrow> holders" where
  "process_row r h =
     (let name = fst r; val = fst (snd r); row_type = lower (snd (snd r)) in
      if str_in ''rev'' row_type \<or> str_in ''gelir'' row_type then
        h\<lparr>revenue_items := AList.update name val (revenue_items h)\<rparr>
      else if str_in ''cog'' row_type \<or> str_in ''cost'' row_type \<or> str_in ''maliyet'' row_type then
        h\<lparr>cogs_value := cogs_value h + val\<rparr>
      else if str_in ''exp'' row_type \<or> str_in ''gider'' row_type \<or> str_in ''tax'' row_type
              \<or> str_in ''vergi'' row_type then
        h\<lparr>expense_items := AList.update name val (expense_items h)\<rparr>
      else h)"

fun load_rows :: "row list \<Rightarrow> holders \<Rightarrow> holders" where
  "load_rows [] h = h"
| "load_rows (r # rs) h = load_rows rs (process_row r h)"

subsection \<open>Manual tab\<close>

text \<open>
  The widgets of the second tab. Streamlit runs the body of every tab on every run of
  the script, so these assignments follow the upload loop whenever a file is loaded.
\<close>

record manual =
  r1_name :: string
  r1_val :: real
  r2_name :: string
  r2_val :: real
  cogs_input :: real
  e1_name :: string
  e1_val :: real

definition manual_tab :: "manual \<Rightarrow> holders \<Rightarrow> holders" where
  "manual_tab m h =
     (let h1 = h\<lparr>revenue_items := AList.update (r1_name m) (r1_val m) (revenue_items h)\<rparr>;
          h2 = h1\<lparr>revenue_items := AList.update (r2_name m) (r2_val m) (revenue_items h1)\<rparr>;
          h3 = h2\<lparr>cogs_value := cogs_input m\<rparr>
      in h3\<lparr>expense_items := AList.update (e1_name m) (e1_val m) (expense_items h3)\<rparr>)"

definition collect_inputs :: "row list option \<Rightarrow> manual \<Rightarrow> holders" where
  "collect_inputs uploaded m =
     manual_tab m (case uploaded of None \<Rightarrow> empty_holders
                   | Some rows \<Rightarrow> load_rows rows empty_holders)"

subsection \<open>Totals\<close>

record totals =
  total_revenue :: real
  gross_profit :: real
  total_expenses :: real
  net_income :: real

definition calc_totals :: "holders \<Rightarrow> totals" where
  "calc_totals h =
     (let total_revenue = sum_list (map snd (revenue_items h));
          gross_profit = total_revenue - cogs_value h;
          total_expenses = sum_list (map snd (expense_items h));
          net_income = gross_profit - total_expenses
      in \<lparr>total_revenue = total_revenue, gross_profit = gross_profit,
          total_expenses = total_expenses, net_income = net_income\<rparr>)"

subsection \<open>The Plotly lists and \<open>get_idx\<close>\<close>

record plot_lists =
  labels :: "string list"
  source_indices :: "nat list"
  target_indices :: "nat list"
  values_list :: "real list"

definition empty_lists :: plot_lists where
  "empty_lists = \<lparr>labels = [], source_indices = [], target_indices = [], values_list = []\<rparr>"

text \<open>\<open>list.index\<close>: the first position of an element; it raises when there is none.\<close>

fun index_py :: "'a list \<Rightarrow> 'a \<Rightarrow> nat option" where
  "index_py [] x = None"
| "index_py (y # ys) x = (if y = x then Some 0 else map_option Suc (index_py ys x))"

definition get_idx :: "string \<Rightarrow> plot_lists \<Rightarrow> (nat \<times> plot_lists) option" where
  "get_idx name s =
     (let s' = (if name \<notin> set (labels s) then s\<lparr>labels := labels s @ [name]\<rparr> else s) in
      map_option (\<lambda>i. (i, s')) (index_py (labels s') name))"

subsection \<open>Building the flows\<close>

text \<open>The three appends that record one link.\<close>

definition add_link :: "nat \<Rightarrow> nat \<Rightarrow> real \<Rightarrow> plot_lists \<Rightarrow> plot_lists" where
  "add_link src tgt v s =
     s\<lparr>source_indices := source_indices s @ [src],
       target_indices := target_indices s @ [tgt],
       values_list := values_list s @ [v]\<rparr>"

fun revenue_flows :: "(string \<times> real) list \<Rightarrow> nat \<Rightarrow> plot_lists \<Rightarrow> plot_lists option" where
  "revenue_flows [] total_rev_idx s = Some s"
| "revenue_flows ((name, val) # items) total_rev_idx s =
     (if val > 0 then
        do { (idx, s1) \<leftarrow> get_idx name s;
             revenue_flows items total_rev_idx (add_link idx total_rev_idx val s1) }
      else revenue_flows items total_rev_idx s)"

fun expense_flows :: "(string \<times> real) list \<Rightarrow> nat \<Rightarrow> plot_lists \<Rightarrow> plot_lists option" where
  "expense_flows [] gp_idx s = Some s"
| "expense_flows ((name, val) # items) gp_idx s =
     (if val > 0 then
        do { (exp_idx, s1) \<leftarrow> get_idx name s;
             expense_flows items gp_idx (add_link gp_idx exp_idx val s1) }
      else expense_flows items gp_idx s)"

definition build_flows :: "trans \<Rightarrow> holders \<Rightarrow> totals \<Rightarrow> plot_lists option" where
  "build_flows t h a =
     do { (total_rev_idx, s1) \<leftarrow> get_idx (t_total_revenue t) empty_lists;
          s2 \<leftarrow> revenue_flows (revenue_items h) total_rev_idx s1;
          (cogs_idx, s3) \<leftarrow> get_idx (t_cogs_label t) s2;
          (gp_idx, s4) \<leftarrow> get_idx (t_gross_profit t) s3;
          let s5 = (if cogs_value h > 0
                    then add_link total_rev_idx cogs_idx (cogs_value h) s4 else s4);
          let s6 = (if gross_profit a > 0
                    then add_link total_rev_idx gp_idx (gross_profit a) s5 else s5);
          s7 \<leftarrow> expense_flows (expense_items h) gp_idx s6;
          if net_income a > 0 then
            do { (ni_idx, s8) \<leftarrow> get_idx (t_net_income t) s7;
                 Some (add_link gp_idx ni_idx (net_income a) s8) }
          else Some s7 }"

text \<open>Steps 1 to 3 of the script on given data holders.\<close>

definition build :: "trans \<Rightarrow> holders \<Rightarrow> plot_lists option" where
  "build t h = build_flows t h (calc_totals h)"

text \<open>The whole script, from the user's inputs to the lists handed to the chart.\<close>

definition script :: "lang \<Rightarrow> row list option \<Rightarrow> manual \<Rightarrow> plot_lists option" where
  "script lg uploaded m = build (TRANS lg) (collect_inputs uploaded m)"

text \<open>An edge of the result: the entries of the three link lists at one position.\<close>

definition edges :: "plot_lists \<Rightarrow> (nat \<times> nat \<times> real) list" where
  "edges s = zip (source_indices s) (zip (target_indices s) (values_list s))"

text \<open>The same edges with each index replaced by the label it stands for.\<close>

definition named_edges :: "plot_lists \<Rightarrow> (string \<times> string \<times> real) list" where
  "named_edges s = map (\<lambda>(i, j, v). (labels s ! i, labels s ! j, v)) (edges s)"

subsection \<open>Repeated calls of \<open>get_idx\<close>\<close>

text \<open>One call of \<open>get_idx\<close> for each label of a list, in order, on the same lists.\<close>

fun get_idx_all :: "string list \<Rightarrow> plot_lists \<Rightarrow> (nat list \<times> plot_lists) option" where
  "get_idx_all [] s = Some ([], s)"
| "get_idx_all (n # ns) s =
     do { (i, s1) \<leftarrow> get_idx n s;
          (js, s2) \<leftarrow> get_idx_all ns s1;
          Some (i # js, s2) }"

section \<open>Specification-level notions\<close>

subsection \<open>Classification by keyword table\<close>

datatype category = Revenue | CostOfRevenue | Expense | Unknown

text \<open>The keyword sets, in the priority order of the categories.\<close>

definition keyword_table :: "(category \<times> string list) list" where
  "keyword_table =
     [(Revenue, [''rev'', ''gelir'']),
      (CostOfRevenue, [''cog'', ''cost'', ''maliyet'']),
      (Expense, [''exp'', ''gider'', ''tax'', ''vergi''])]"

text \<open>
  The category of a raw type string: the first category of the table one of whose keywords
  is a substring of the lower-cased string, \<open>Unknown\<close> when there is none.
\<close>

definition classify_spec :: "string \<Rightarrow> category" where
  "classify_spec raw =
     (case find (\<lambda>(c, kws). \<exists>kw \<in> set kws. sublist kw (lower raw)) keyword_table of
        Some (c, kws) \<Rightarrow> c
      | None \<Rightarrow> Unknown)"

text \<open>What becomes of the data holders when an entry of a given category is recorded.\<close>

fun store :: "category \<Rightarrow> string \<Rightarrow> real \<Rightarrow> holders \<Rightarrow> holders" where
  "store Revenue name val h = h\<lparr>revenue_items := AList.update name val (revenue_items h)\<rparr>"
| "store CostOfRevenue name val h = h\<lparr>cogs_value := cogs_value h + val\<rparr>"
| "store Expense name val h = h\<lparr>expense_items := AList.update name val (expense_items h)\<rparr>"
| "store Unknown name val h = h"

text \<open>The (name, value) entries of the rows of one category, in row order.\<close>

definition entries :: "category \<Rightarrow> row list \<Rightarrow> (string \<times> real) list" where
  "entries c rows = map (\<lambda>r. (fst r, fst (snd r))) (filter (\<lambda>r. classify_spec (snd (snd r)) = c) rows)"

text \<open>The dictionary after the assignments \<open>d[k] = v\<close> for a list of entries, in order.\<close>

fun assign_all :: "(string \<times> real) list \<Rightarrow> (string \<times> real) list \<Rightarrow> (string \<times> real) list" where
  "assign_all al [] = al"
| "assign_all al (p # ps) = assign_all (AList.update (fst p) (snd p) al) ps"

text \<open>The value of the last entry with a given name.\<close>

definition last_value :: "(string \<times> real) list \<Rightarrow> string \<Rightarrow> real" where
  "last_value es n = (case map_of (rev es) n of Some v \<Rightarrow> v | None \<Rightarrow> 0)"

subsection \<open>Label registry\<close>

text \<open>The label list after a sequence of requests: a label is appended when first seen.\<close>

fun register :: "'a list \<Rightarrow> 'a list \<Rightarrow> 'a list" where
  "register ls [] = ls"
| "register ls (n # ns) = register (if n \<in> set ls then ls else ls @ [n]) ns"

text \<open>The position of a label in a label list (the length of the list when absent).\<close>

definition pos :: "'a list \<Rightarrow> 'a \<Rightarrow> nat" where
  "pos ls n = (case index_py ls n of Some i \<Rightarrow> i | None \<Rightarrow> length ls)"

text \<open>
  The Plotly lists that hold the labels \<open>ls\<close> and the edges \<open>es\<close>, each end of an edge
  given by the position of its label in the label list \<open>final\<close>.
\<close>

definition lists_of ::
  "string list \<Rightarrow> string list \<Rightarrow> (string \<times> string \<times> real) list \<Rightarrow> plot_lists" where
  "lists_of final ls es =
     \<lparr>labels = ls,
      source_indices = map (\<lambda>e. pos final (fst e)) es,
      target_indices = map (\<lambda>e. pos final (fst (snd e))) es,
      values_list = map (\<lambda>e. snd (snd e)) es\<rparr>"

subsection \<open>The edge order\<close>

definition positive :: "(string \<times> real) list \<Rightarrow> (string \<times> real) list" where
  "positive items = filter (\<lambda>p. snd p > 0) items"

text \<open>
  The edges in the order of emission, each with the labels of its two ends and its value:
  the revenue items with a positive value, the cost of revenue when positive, the gross
  profit when positive, the expense items with a positive value, the net income when
  positive.
\<close>

definition edge_order_spec :: "trans \<Rightarrow> holders \<Rightarrow> (string \<times> string \<times> real) list" where
  "edge_order_spec t h =
     (let totalRevenue = sum_list (map snd (revenue_items h));
          grossProfit = totalRevenue - cogs_value h;
          totalExpenses = sum_list (map snd (expense_items h));
          netIncome = grossProfit - totalExpenses
      in map (\<lambda>p. (fst p, t_total_revenue t, snd p)) (positive (revenue_items h))
         @ (if cogs_value h > 0 then [(t_total_revenue t, t_cogs_label t, cogs_value h)] else [])
         @ (if grossProfit > 0 then [(t_total_revenue t, t_gross_profit t, grossProfit)] else [])
         @ map (\<lambda>p. (t_gross_profit t, fst p, snd p)) (positive (expense_items h))
         @ (if netIncome > 0 then [(t_gross_profit t, t_net_income t, netIncome)] else []))"

text \<open>The labels in the order in which the flow construction asks for their index.\<close>

definition requests :: "trans \<Rightarrow> holders \<Rightarrow> string list" where
  "requests t h =
     [t_total_revenue t] @ map fst (positive (revenue_items h))
     @ [t_cogs_label t, t_gross_profit t] @ map fst (positive (expense_items h))
     @ (if net_income (calc_totals h) > 0 then [t_net_income t] else [])"

section \<open>Properties of the label registry\<close>

lemma index_py_append: "index_py ls x = Some i \<Longrightarrow> index_py (ls @ ys) x = Some i"
  by (induction ls arbitrary: i) (auto split: if_splits)

lemma index_py_None: "index_py ls x = None \<longleftrightarrow> x \<notin> set ls"
  by (induction ls) auto

lemma index_py_Some: "index_py ls x = Some i \<Longrightarrow> i < length ls \<and> ls ! i = x"
  by (induction ls arbitrary: i) (auto split: if_splits)

lemma index_py_pos: "x \<in> set ls \<Longrightarrow> index_py ls x = Some (pos ls x)"
  by (cases "index_py ls x") (auto simp: pos_def index_py_None)

lemma pos_less: "x \<in> set ls \<Longrightarrow> pos ls x < length ls"
  using index_py_pos index_py_Some by fastforce

lemma nth_pos: "x \<in> set ls \<Longrightarrow> ls ! pos ls x = x"
  using index_py_pos index_py_Some by fastforce

lemma pos_append: "x \<in> set ls \<Longrightarrow> pos (ls @ ys) x = pos ls x"
  by (cases "index_py ls x") (auto simp: pos_def index_py_append index_py_None)

lemma pos_nth: "distinct ls \<Longrightarrow> i < length ls \<Longrightarrow> pos ls (ls ! i) = i"
proof -
  assume d: "distinct ls" and i: "i < length ls"
  then have m: "ls ! i \<in> set ls" by simp
  from nth_pos[OF m] pos_less[OF m] d i show ?thesis
    by (simp add: nth_eq_iff_index_eq)
qed

lemma register_append: "register ls (ns @ ms) = register (register ls ns) ms"
  by (induction ns arbitrary: ls) auto

lemma register_prefix: "\<exists>ys. register ls ns = ls @ ys"
proof (induction ns arbitrary: ls)
  case Nil
  then show ?case by simp
next
  case (Cons n ns)
  from Cons[of "if n \<in> set ls then ls else ls @ [n]"] show ?case
    by (auto split: if_splits)
qed

lemma set_register: "set (register ls ns) = set ls \<union> set ns"
  by (induction ns arbitrary: ls) auto

lemma distinct_register: "distinct ls \<Longrightarrow> distinct (register ls ns)"
  by (induction ns arbitrary: ls) auto

lemma pos_register: "x \<in> set ls \<Longrightarrow> pos (register ls ns) x = pos ls x"
  using register_prefix[of ls ns] by (auto simp: pos_append)

lemma register_distinct_fresh: "distinct ns \<Longrightarrow> set ns \<inter> set ls = {} \<Longrightarrow> register ls ns = ls @ ns"
  by (induction ns arbitrary: ls) auto

lemma get_idx_eq:
  "get_idx n s = Some (pos (register (labels s) [n]) n, s\<lparr>labels := register (labels s) [n]\<rparr>)"
  by (auto simp: get_idx_def index_py_pos)

section \<open>The flow construction in closed form\<close>

lemma edge_order_spec_totals:
  "edge_order_spec t h =
     map (\<lambda>p. (fst p, t_total_revenue t, snd p)) (positive (revenue_items h))
     @ (if cogs_value h > 0 then [(t_total_revenue t, t_cogs_label t, cogs_value h)] else [])
     @ (if gross_profit (calc_totals h) > 0
        then [(t_total_revenue t, t_gross_profit t, gross_profit (calc_totals h))] else [])
     @ map (\<lambda>p. (t_gross_profit t, fst p, snd p)) (positive (expense_items h))
     @ (if net_income (calc_totals h) > 0
        then [(t_gross_profit t, t_net_income t, net_income (calc_totals h))] else [])"
  by (simp add: edge_order_spec_def calc_totals_def Let_def)

lemma prefix_register: "prefix ls (register ls ns)"
  using register_prefix[of ls ns] by (auto simp: prefix_def)

lemma pos_prefix: "prefix ls final \<Longrightarrow> x \<in> set ls \<Longrightarrow> pos final x = pos ls x"
  by (auto simp: prefix_def pos_append)

lemma mem_register_single: "n \<in> set (register ls [n])"
  by simp

lemma get_idx_lists:
  assumes "prefix (register ls [n]) final"
  shows "get_idx n (lists_of final ls es) = Some (pos final n, lists_of final (register ls [n]) es)"
proof -
  have "pos final n = pos (register ls [n]) n"
    using assms by (rule pos_prefix) (rule mem_register_single)
  then show ?thesis
    by (simp add: get_idx_eq lists_of_def)
qed

lemma add_link_lists:
  "add_link (pos final a) (pos final b) v (lists_of final ls es)
     = lists_of final ls (es @ [(a, b, v)])"
  by (simp add: add_link_def lists_of_def)

lemma positive_Cons:
  "positive (p # items) = (if snd p > 0 then p # positive items else positive items)"
  by (simp add: positive_def)

lemma revenue_flows_lists:
  "prefix (register ls (map fst (positive items))) final \<Longrightarrow>
   revenue_flows items (pos final tr) (lists_of final ls es) =
     Some (lists_of final (register ls (map fst (positive items)))
             (es @ map (\<lambda>p. (fst p, tr, snd p)) (positive items)))"
proof (induction items arbitrary: ls es)
  case Nil
  then show ?case by (simp add: positive_def)
next
  case (Cons p items)
  obtain n v where p: "p = (n, v)" by (cases p)
  show ?case
  proof (cases "v > 0")
    case False
    then show ?thesis using Cons by (simp add: p positive_Cons)
  next
    case True
    let ?ls1 = "register ls [n]"
    have pre: "prefix (register ?ls1 (map fst (positive items))) final"
      using Cons.prems True by (simp add: p positive_Cons)
    have pre1: "prefix ?ls1 final"
      using prefix_register pre by (rule prefix_order.trans)
    have reg: "register ls (map fst (positive (p # items))) = register ?ls1 (map fst (positive items))"
      using True by (simp add: p positive_Cons)
    have "revenue_flows (p # items) (pos final tr) (lists_of final ls es)
            = revenue_flows items (pos final tr) (lists_of final ?ls1 (es @ [(n, tr, v)]))"
      using True by (simp add: p get_idx_lists[OF pre1] add_link_lists)
    also have "\<dots> = Some (lists_of final (register ?ls1 (map fst (positive items)))
             ((es @ [(n, tr, v)]) @ map (\<lambda>p. (fst p, tr, snd p)) (positive items)))"
      by (rule Cons.IH[OF pre])
    finally show ?thesis
      unfolding reg using True by (simp add: p positive_Cons)
  qed
qed

lemma expense_flows_lists:
  "prefix (register ls (map fst (positive items))) final \<Longrightarrow>
   expense_flows items (pos final gp) (lists_of final ls es) =
     Some (lists_of final (register ls (map fst (positive items)))
             (es @ map (\<lambda>p. (gp, fst p, snd p)) (positive items)))"
proof (induction items arbitrary: ls es)
  case Nil
  then show ?case by (simp add: positive_def)
next
  case (Cons p items)
  obtain n v where p: "p = (n, v)" by (cases p)
  show ?case
  proof (cases "v > 0")
    case False
    then show ?thesis using Cons by (simp add: p positive_Cons)
  next
    case True
    let ?ls1 = "register ls [n]"
    have pre: "prefix (register ?ls1 (map fst (positive items))) final"
      using Cons.prems True by (simp add: p positive_Cons)
    have pre1: "prefix ?ls1 final"
      using prefix_register pre by (rule prefix_order.trans)
    have reg: "register ls (map fst (positive (p # items))) = register ?ls1 (map fst (positive items))"
      using True by (simp add: p positive_Cons)
    have "expense_flows (p # items) (pos final gp) (lists_of final ls es)
            = expense_flows items (pos final gp) (lists_of final ?ls1 (es @ [(gp, n, v)]))"
      using True by (simp add: p get_idx_lists[OF pre1] add_link_lists)
    also have "\<dots> = Some (lists_of final (register ?ls1 (map fst (positive items)))
             ((es @ [(gp, n, v)]) @ map (\<lambda>p. (gp, fst p, snd p)) (positive items)))"
      by (rule Cons.IH[OF pre])
    finally show ?thesis
      unfolding reg using True by (simp add: p positive_Cons)
  qed
qed

lemma build_closed_form:
  "build t h = Some (lists_of (register [] (requests t h)) (register [] (requests t h))
                       (edge_order_spec t h))"
proof -
  let ?TR = "t_total_revenue t" and ?CG = "t_cogs_label t" and ?GP = "t_gross_profit t"
    and ?NI = "t_net_income t"
  let ?rn = "map fst (positive (revenue_items h))"
  let ?en = "map fst (positive (expense_items h))"
  let ?ni = "if net_income (calc_totals h) > 0 then [?NI] else []"
  let ?L = "register [] (requests t h)"
  let ?L1 = "register [] [?TR]"
  let ?L2 = "register ?L1 ?rn"
  let ?L3 = "register ?L2 [?CG]"
  let ?L4 = "register ?L3 [?GP]"
  let ?L5 = "register ?L4 ?en"
  let ?E1 = "map (\<lambda>p. (fst p, ?TR, snd p)) (positive (revenue_items h))"
  let ?E2 = "if cogs_value h > 0 then [(?TR, ?CG, cogs_value h)] else []"
  let ?E3 = "if gross_profit (calc_totals h) > 0
             then [(?TR, ?GP, gross_profit (calc_totals h))] else []"
  let ?E4 = "map (\<lambda>p. (?GP, fst p, snd p)) (positive (expense_items h))"
  let ?E5 = "if net_income (calc_totals h) > 0
             then [(?GP, ?NI, net_income (calc_totals h))] else []"
  have L: "?L = register ?L5 ?ni"
  proof -
    have two: "\<And>ls. register ls [?CG, ?GP] = register (register ls [?CG]) [?GP]"
      using register_append[of _ "[?CG]" "[?GP]"] by simp
    show ?thesis by (simp only: requests_def register_append two)
  qed
  have pre5: "prefix ?L5 ?L" unfolding L by (rule prefix_register)
  have pre4: "prefix ?L4 ?L" using prefix_register pre5 by (rule prefix_order.trans)
  have pre3: "prefix ?L3 ?L" using prefix_register pre4 by (rule prefix_order.trans)
  have pre2: "prefix ?L2 ?L" using prefix_register pre3 by (rule prefix_order.trans)
  have pre1: "prefix ?L1 ?L" using prefix_register pre2 by (rule prefix_order.trans)
  have s0: "empty_lists = lists_of ?L [] []"
    by (simp add: empty_lists_def lists_of_def)
  have g1: "get_idx ?TR (lists_of ?L [] []) = Some (pos ?L ?TR, lists_of ?L ?L1 [])"
    by (rule get_idx_lists[OF pre1])
  have g2: "revenue_flows (revenue_items h) (pos ?L ?TR) (lists_of ?L ?L1 [])
              = Some (lists_of ?L ?L2 ?E1)"
    using revenue_flows_lists[OF pre2, of ?TR "[]"] by simp
  have g3: "get_idx ?CG (lists_of ?L ?L2 ?E1) = Some (pos ?L ?CG, lists_of ?L ?L3 ?E1)"
    by (rule get_idx_lists[OF pre3])
  have g4: "get_idx ?GP (lists_of ?L ?L3 ?E1) = Some (pos ?L ?GP, lists_of ?L ?L4 ?E1)"
    by (rule get_idx_lists[OF pre4])
  have s5: "(if cogs_value h > 0
             then add_link (pos ?L ?TR) (pos ?L ?CG) (cogs_value h) (lists_of ?L ?L4 ?E1)
             else lists_of ?L ?L4 ?E1) = lists_of ?L ?L4 (?E1 @ ?E2)"
    by (simp add: add_link_lists)
  have s6: "(if gross_profit (calc_totals h) > 0
             then add_link (pos ?L ?TR) (pos ?L ?GP) (gross_profit (calc_totals h))
                    (lists_of ?L ?L4 (?E1 @ ?E2))
             else lists_of ?L ?L4 (?E1 @ ?E2)) = lists_of ?L ?L4 ((?E1 @ ?E2) @ ?E3)"
    by (simp add: add_link_lists)
  have g7: "expense_flows (expense_items h) (pos ?L ?GP) (lists_of ?L ?L4 ((?E1 @ ?E2) @ ?E3))
              = Some (lists_of ?L ?L5 (((?E1 @ ?E2) @ ?E3) @ ?E4))"
    by (rule expense_flows_lists[OF pre5])
  have E: "edge_order_spec t h = (((?E1 @ ?E2) @ ?E3) @ ?E4) @ ?E5"
    by (simp add: edge_order_spec_totals)
  have g8: "(if net_income (calc_totals h) > 0
             then do { (ni_idx, s8) \<leftarrow> get_idx ?NI (lists_of ?L ?L5 (((?E1 @ ?E2) @ ?E3) @ ?E4));
                       Some (add_link (pos ?L ?GP) ni_idx (net_income (calc_totals h)) s8) }
             else Some (lists_of ?L ?L5 (((?E1 @ ?E2) @ ?E3) @ ?E4)))
            = Some (lists_of ?L ?L (edge_order_spec t h))"
  proof (cases "net_income (calc_totals h) > 0")
    case True
    have LL: "register ?L5 [?NI] = ?L"
      unfolding L by (simp only: True if_True)
    have pre: "prefix (register ?L5 [?NI]) ?L"
      unfolding LL by (rule prefix_order.refl)
    have g: "get_idx ?NI (lists_of ?L ?L5 (((?E1 @ ?E2) @ ?E3) @ ?E4))
               = Some (pos ?L ?NI, lists_of ?L (register ?L5 [?NI]) (((?E1 @ ?E2) @ ?E3) @ ?E4))"
      by (rule get_idx_lists[OF pre])
    show ?thesis
      unfolding E by (simp only: True if_True g bind.bind_lunit prod.case add_link_lists LL)
  next
    case False
    have LL: "?L5 = ?L"
      unfolding L by (simp only: False if_False register.simps)
    show ?thesis
      unfolding E by (simp only: False if_False LL append_Nil2)
  qed
  show ?thesis
    unfolding build_def build_flows_def s0
    by (simp only: g1 g2 g3 g4 s5 s6 g7 g8 bind.bind_lunit prod.case Let_def)
qed

section \<open>Consequences of the closed form\<close>

lemma labels_lists_of: "labels (lists_of final ls es) = ls"
  by (simp add: lists_of_def)

lemma sources_lists_of:
  "source_indices (lists_of final ls es) = map (\<lambda>e. pos final (fst e)) es"
  by (simp add: lists_of_def)

lemma targets_lists_of:
  "target_indices (lists_of final ls es) = map (\<lambda>e. pos final (fst (snd e))) es"
  by (simp add: lists_of_def)

lemma values_lists_of: "values_list (lists_of final ls es) = map (\<lambda>e. snd (snd e)) es"
  by (simp add: lists_of_def)

lemma edges_lists_of:
  "edges (lists_of final ls es) = map (\<lambda>e. (pos final (fst e), pos final (fst (snd e)), snd (snd e))) es"
  by (induction es) (simp_all add: edges_def lists_of_def)

lemma positive_set: "p \<in> set (positive items) \<longleftrightarrow> p \<in> set items \<and> snd p > 0"
  by (auto simp: positive_def)

lemma spec_values_positive: "e \<in> set (edge_order_spec t h) \<Longrightarrow> 0 < snd (snd e)"
  by (auto simp: edge_order_spec_totals positive_set split: if_splits)

lemma spec_ends_requested:
  "e \<in> set (edge_order_spec t h) \<Longrightarrow>
     fst e \<in> set (requests t h) \<and> fst (snd e) \<in> set (requests t h)"
  by (auto simp: edge_order_spec_totals requests_def image_iff split: if_splits) force+

lemma spec_ends_registered:
  "e \<in> set (edge_order_spec t h) \<Longrightarrow>
     fst e \<in> set (register [] (requests t h)) \<and> fst (snd e) \<in> set (register [] (requests t h))"
  using spec_ends_requested by (simp add: set_register)

lemma named_edges_lists_of:
  assumes "\<And>e. e \<in> set es \<Longrightarrow> fst e \<in> set ls \<and> fst (snd e) \<in> set ls"
  shows "named_edges (lists_of ls ls es) = es"
proof -
  have "map (\<lambda>e. (ls ! pos ls (fst e), ls ! pos ls (fst (snd e)), snd (snd e))) es = map (\<lambda>e. e) es"
    by (rule map_cong) (auto simp: nth_pos dest: assms)
  then show ?thesis
    by (simp add: named_edges_def edges_lists_of labels_lists_of comp_def)
qed

lemma positive_names:
  "x \<in> fst ` set (positive items) \<longleftrightarrow> (\<exists>p \<in> set items. 0 < snd p \<and> fst p = x)"
  by (force simp: positive_set image_iff)

lemma set_requests:
  "set (requests t h) =
     {t_total_revenue t, t_cogs_label t, t_gross_profit t}
     \<union> fst ` set (positive (revenue_items h)) \<union> fst ` set (positive (expense_items h))
     \<union> (if 0 < net_income (calc_totals h) then {t_net_income t} else {})"
  by (auto simp: requests_def)

lemma sum_list_zero: "(\<forall>p \<in> set items. snd p = (0::real)) \<Longrightarrow> sum_list (map snd items) = 0"
  by (induction items) auto

lemma positive_zero: "(\<forall>p \<in> set items. snd p = (0::real)) \<Longrightarrow> positive items = []"
  by (induction items) (auto simp: positive_def)

lemma distinct_registered: "distinct (register [] ns)"
  by (rule distinct_register) simp

lemma requested_is_end:
  assumes "x \<in> set (requests t h)"
    and "x \<notin> {t_total_revenue t, t_cogs_label t, t_gross_profit t}"
  shows "\<exists>e \<in> set (edge_order_spec t h). fst e = x \<or> fst (snd e) = x"
proof -
  from assms have "x \<in> fst ` set (positive (revenue_items h))
      \<or> x \<in> fst ` set (positive (expense_items h))
      \<or> (0 < net_income (calc_totals h) \<and> x = t_net_income t)"
    by (auto simp: set_requests split: if_splits)
  then show ?thesis
  proof (elim disjE)
    assume "x \<in> fst ` set (positive (revenue_items h))"
    then obtain p where "p \<in> set (positive (revenue_items h))" "fst p = x" by auto
    then have "(x, t_total_revenue t, snd p) \<in> set (edge_order_spec t h)"
      by (force simp: edge_order_spec_totals)
    then show ?thesis by force
  next
    assume "x \<in> fst ` set (positive (expense_items h))"
    then obtain p where "p \<in> set (positive (expense_items h))" "fst p = x" by auto
    then have "(t_gross_profit t, x, snd p) \<in> set (edge_order_spec t h)"
      by (force simp: edge_order_spec_totals)
    then show ?thesis by force
  next
    assume "0 < net_income (calc_totals h) \<and> x = t_net_income t"
    then have "(t_gross_profit t, x, net_income (calc_totals h)) \<in> set (edge_order_spec t h)"
      by (simp add: edge_order_spec_totals)
    then show ?thesis by force
  qed
qed

section \<open>The registry under repeated requests\<close>

lemma get_idx_all_eq:
  "get_idx_all ns s =
     Some (map (pos (register (labels s) ns)) ns, s\<lparr>labels := register (labels s) ns\<rparr>)"
proof (induction ns arbitrary: s)
  case Nil
  then show ?case by simp
next
  case (Cons n ns)
  let ?ls1 = "register (labels s) [n]"
  have stable: "pos (register ?ls1 ns) n = pos ?ls1 n"
    by (rule pos_register) (rule mem_register_single)
  have reg: "register (labels s) (n # ns) = register ?ls1 ns" by simp
  show ?case
    unfolding reg
    by (simp add: get_idx_eq Cons stable del: register.simps)
qed

lemma map_pos_distinct: "distinct ns \<Longrightarrow> map (pos ns) ns = [0..<length ns]"
  by (rule nth_equalityI) (simp_all add: pos_nth)

lemma register_distinct: "distinct ns \<Longrightarrow> register [] ns = ns"
  using register_distinct_fresh[of ns "[]"] by simp

lemma get_idx_again:
  "\<exists>i s1 js s2. get_idx n s = Some (i, s1) \<and> get_idx_all ms s1 = Some (js, s2)
                  \<and> get_idx n s2 = Some (i, s2)"
proof -
  let ?l1 = "register (labels s) [n]"
  let ?l2 = "register ?l1 ms"
  have m: "n \<in> set ?l2" by (simp add: set_register)
  have same: "register ?l2 [n] = ?l2" using m by simp
  have p: "pos ?l2 n = pos ?l1 n" by (rule pos_register) (rule mem_register_single)
  have g1: "get_idx n s = Some (pos ?l1 n, s\<lparr>labels := ?l1\<rparr>)" by (rule get_idx_eq)
  have g2: "get_idx_all ms (s\<lparr>labels := ?l1\<rparr>)
              = Some (map (pos ?l2) ms, s\<lparr>labels := ?l2\<rparr>)"
    using get_idx_all_eq[of ms "s\<lparr>labels := ?l1\<rparr>"] by simp
  have g3: "get_idx n (s\<lparr>labels := ?l2\<rparr>) = Some (pos ?l1 n, s\<lparr>labels := ?l2\<rparr>)"
    using get_idx_eq[of n "s\<lparr>labels := ?l2\<rparr>"] by (simp add: same p del: register.simps)
  from g1 g2 g3 show ?thesis by blast
qed

lemma get_idx_all_distinct:
  "distinct ns \<Longrightarrow>
     get_idx_all ns empty_lists = Some ([0..<length ns], empty_lists\<lparr>labels := ns\<rparr>)"
  by (simp add: get_idx_all_eq empty_lists_def register_distinct map_pos_distinct)

lemma revenue_edge_in_spec:
  "p \<in> set (positive (revenue_items h)) \<Longrightarrow>
     (fst p, t_total_revenue t, snd p) \<in> set (edge_order_spec t h)"
  by (auto simp: edge_order_spec_totals image_iff)

lemma expense_edge_in_spec:
  "p \<in> set (positive (expense_items h)) \<Longrightarrow>
     (t_gross_profit t, fst p, snd p) \<in> set (edge_order_spec t h)"
  by (auto simp: edge_order_spec_totals image_iff)

lemma edge_in_lists_of:
  "(a, b, v) \<in> set es \<Longrightarrow> (pos final a, pos final b, v) \<in> set (edges (lists_of final ls es))"
  unfolding edges_lists_of set_map by (rule image_eqI[where x = "(a, b, v)"]) simp_all

lemma shared_registry:
  assumes "(name, v) \<in> set (revenue_items h)" "0 < v"
    and "(name, w) \<in> set (expense_items h)" "0 < w"
  shows "\<exists>g i. build t h = Some g \<and> distinct (labels g)
                 \<and> i < length (labels g) \<and> labels g ! i = name
                 \<and> (i, pos (labels g) (t_total_revenue t), v) \<in> set (edges g)
                 \<and> (pos (labels g) (t_gross_profit t), i, w) \<in> set (edges g)"
proof -
  let ?L = "register [] (requests t h)"
  let ?E = "edge_order_spec t h"
  let ?g = "lists_of ?L ?L ?E"
  from assms have r: "(name, v) \<in> set (positive (revenue_items h))"
    and e: "(name, w) \<in> set (positive (expense_items h))"
    by (simp_all add: positive_set)
  from revenue_edge_in_spec[OF r] have er: "(name, t_total_revenue t, v) \<in> set ?E" by simp
  from expense_edge_in_spec[OF e] have ee: "(t_gross_profit t, name, w) \<in> set ?E" by simp
  from spec_ends_registered[OF er] have mem: "name \<in> set ?L" by simp
  have b: "build t h = Some ?g" by (rule build_closed_form)
  have l: "labels ?g = ?L" by (rule labels_lists_of)
  have d: "distinct (labels ?g)" unfolding l by (rule distinct_registered)
  have i1: "pos ?L name < length (labels ?g)" unfolding l using mem by (rule pos_less)
  have i2: "labels ?g ! pos ?L name = name" unfolding l using mem by (rule nth_pos)
  have e1: "(pos ?L name, pos (labels ?g) (t_total_revenue t), v) \<in> set (edges ?g)"
    unfolding l using er by (rule edge_in_lists_of)
  have e2: "(pos (labels ?g) (t_gross_profit t), pos ?L name, w) \<in> set (edges ?g)"
    unfolding l using ee by (rule edge_in_lists_of)
  from b d i1 i2 e1 e2 show ?thesis by blast
qed

section \<open>The upload loop\<close>

lemma str_in_sublist: "str_in kw s \<longleftrightarrow> sublist kw s"
  by (induction s) (simp_all add: sublist_Cons_right)

lemma process_row_store:
  "process_row r h = store (classify_spec (snd (snd r))) (fst r) (fst (snd r)) h"
  by (simp add: process_row_def classify_spec_def keyword_table_def str_in_sublist Let_def)

lemma entries_Cons:
  "entries c (r # rows) =
     (if classify_spec (snd (snd r)) = c then (fst r, fst (snd r)) # entries c rows
      else entries c rows)"
  by (simp add: entries_def)

lemma load_rows_eq:
  "load_rows rows h =
     \<lparr>revenue_items = assign_all (revenue_items h) (entries Revenue rows),
      cogs_value = cogs_value h + sum_list (map snd (entries CostOfRevenue rows)),
      expense_items = assign_all (expense_items h) (entries Expense rows)\<rparr>"
proof (induction rows arbitrary: h)
  case Nil
  then show ?case by (simp add: entries_def)
next
  case (Cons r rows)
  show ?case
    by (cases "classify_spec (snd (snd r))")
      (simp_all add: Cons process_row_store entries_Cons)
qed

lemma map_of_assign_all: "map_of (assign_all al es) = map_of al ++ map_of (rev es)"
  by (induction es arbitrary: al) (simp_all add: update_conv')

lemma distinct_assign_all: "distinct (map fst al) \<Longrightarrow> distinct (map fst (assign_all al es))"
  by (induction es arbitrary: al) (simp_all add: distinct_update)

lemma keys_assign_all: "fst ` set (assign_all al es) = fst ` set al \<union> fst ` set es"
  by (induction es arbitrary: al) (auto simp: dom_update)

lemma assign_all_fresh: "distinct (map fst es) \<Longrightarrow> assign_all [] es = es"
proof -
  have "distinct (map fst (al @ es)) \<Longrightarrow> assign_all al es = al @ es" for al
  proof (induction es arbitrary: al)
    case Nil
    then show ?case by simp
  next
    case (Cons p es)
    have "AList.update (fst p) (snd p) al = al @ [p]"
      using Cons.prems by (induction al) auto
    then show ?case using Cons.IH[of "al @ [p]"] Cons.prems by simp
  qed
  from this[of "[]"] show "distinct (map fst es) \<Longrightarrow> assign_all [] es = es" by simp
qed

lemma sum_list_by_key:
  "distinct (map fst al) \<Longrightarrow>
     sum_list (map snd al) = (\<Sum>k \<in> fst ` set al. the (map_of al k))"
proof (induction al)
  case Nil
  then show ?case by simp
next
  case (Cons p al)
  obtain k v where p: "p = (k, v)" by (cases p)
  from Cons.prems have k: "k \<notin> fst ` set al" and d: "distinct (map fst al)"
    by (simp_all add: p)
  have "(\<Sum>k' \<in> fst ` set al. the (map_of (p # al) k')) = (\<Sum>k' \<in> fst ` set al. the (map_of al k'))"
    using k by (intro sum.cong) (auto simp: p)
  then show ?case
    using k Cons.IH[OF d] by (simp add: p)
qed

lemma last_value_map_of:
  "k \<in> fst ` set es \<Longrightarrow> the (map_of (rev es) k) = last_value es k"
  by (cases "map_of (rev es) k") (auto simp: last_value_def map_of_eq_None_iff)

lemma sum_assign_all:
  "sum_list (map snd (assign_all [] es)) = (\<Sum>k \<in> fst ` set es. last_value es k)"
proof -
  have d: "distinct (map fst (assign_all [] es))" by (rule distinct_assign_all) simp
  have "sum_list (map snd (assign_all [] es))
          = (\<Sum>k \<in> fst ` set (assign_all [] es). the (map_of (assign_all [] es) k))"
    using d by (rule sum_list_by_key)
  also have "\<dots> = (\<Sum>k \<in> fst ` set es. the (map_of (rev es) k))"
    by (simp add: keys_assign_all map_of_assign_all)
  also have "\<dots> = (\<Sum>k \<in> fst ` set es. last_value es k)"
    by (rule sum.cong) (simp_all add: last_value_map_of)
  finally show ?thesis .
qed

text \<open>
  Whatever the upload loop has accumulated, the cost of revenue that reaches the totals is
  the value of the widget of the manual tab.
\<close>

lemma manual_tab_replaces_cogs: "cogs_value (collect_inputs uploaded m) = cogs_input m"
  by (simp add: collect_inputs_def manual_tab_def Let_def)

section \<open>The claims\<close>

text \<open>
  C1. The edges are emitted in this order: one edge from each revenue item with a positive
  value to Total Revenue, in the order of the items; then the edge from Total Revenue to
  cost of revenue when the cost of revenue is positive; then the edge from Total Revenue to
  Gross Profit when the gross profit is positive; then one edge from Gross Profit to each
  expense item with a positive value, in the order of the items; last the edge from Gross
  Profit to Net Income when the net income is positive. The construction never fails, and
  the three link lists have one entry for each edge.
\<close>

theorem edges_in_emission_order:
  "\<exists>g. build t h = Some g \<and> named_edges g = edge_order_spec t h
       \<and> length (edges g) = length (values_list g)"
  using spec_ends_registered
  by (simp add: build_closed_form named_edges_lists_of edges_lists_of values_lists_of)

text \<open>
  Scenario A: revenue A 100 and B 50, cost of revenue 60, expense R and D 20.
\<close>

theorem edges_in_emission_order_witness:
  "\<exists>g. build (TRANS English)
          \<lparr>revenue_items = [(''A'', 100), (''B'', 50)], cogs_value = 60,
           expense_items = [(''R&D'', 20)]\<rparr> = Some g
     \<and> named_edges g =
         [(''A'', ''Total Revenue'', 100), (''B'', ''Total Revenue'', 50),
          (''Total Revenue'', ''Cost of Revenue (COGS)'', 60),
          (''Total Revenue'', ''Gross Profit'', 90),
          (''Gross Profit'', ''R&D'', 20), (''Gross Profit'', ''Net Income'', 70)]"
  using edges_in_emission_order [of "TRANS English"
      "\<lparr>revenue_items = [(''A'', 100), (''B'', 50)], cogs_value = 60,
        expense_items = [(''R&D'', 20)]\<rparr>"]
  by (auto simp: edge_order_spec_totals positive_def calc_totals_def)

text \<open>
  C4. Every edge of the result has a value greater than zero, whatever the item values,
  the cost of revenue, the gross profit and the net income are.
\<close>

theorem edge_values_positive:
  "\<exists>g. build t h = Some g \<and> (\<forall>v \<in> set (values_list g). 0 < v)"
  using spec_values_positive by (auto simp: build_closed_form values_lists_of)

theorem edge_values_positive_witness:
  "\<exists>g. build (TRANS English)
          \<lparr>revenue_items = [(''A'', 100), (''Z'', 0), (''N'', - 5)], cogs_value = 0,
           expense_items = [(''R&D'', 20), (''Refund'', - 1)]\<rparr> = Some g
     \<and> list_all (\<lambda>v. 0 < v) (values_list g)"
  using edge_values_positive [of "TRANS English"
      "\<lparr>revenue_items = [(''A'', 100), (''Z'', 0), (''N'', - 5)], cogs_value = 0,
        expense_items = [(''R&D'', 20), (''Refund'', - 1)]\<rparr>"]
  by (auto simp: list_all_iff)

text \<open>
  C5. Every source index and every target index of the result is a valid index into the
  label list: there is no dangling reference. The three link lists have the same length.
\<close>

theorem edge_indices_valid:
  "\<exists>g. build t h = Some g
       \<and> length (source_indices g) = length (values_list g)
       \<and> length (target_indices g) = length (values_list g)
       \<and> (\<forall>i \<in> set (source_indices g) \<union> set (target_indices g). i < length (labels g))"
  using spec_ends_registered
  by (auto simp: build_closed_form values_lists_of sources_lists_of targets_lists_of
      labels_lists_of intro: pos_less)

theorem edge_indices_valid_witness:
  "\<exists>g. build (TRANS Turkce)
          \<lparr>revenue_items = [(''A'', 100), (''B'', 50)], cogs_value = 60,
           expense_items = [(''A'', 20)]\<rparr> = Some g
     \<and> list_all (\<lambda>i. i < length (labels g)) (source_indices g @ target_indices g)"
  using edge_indices_valid [of "TRANS Turkce"
      "\<lparr>revenue_items = [(''A'', 100), (''B'', 50)], cogs_value = 60,
        expense_items = [(''A'', 20)]\<rparr>"]
  by (auto simp: list_all_iff)

text \<open>
  C7. The gross profit is the total revenue minus the cost of revenue and the net income is
  the gross profit minus the total expenses, where the total revenue and the total expenses
  are the sums of the recorded item values. Nothing is clamped: the witness has a negative
  gross profit and a negative net income.
\<close>

theorem totals_are_differences:
  "gross_profit (calc_totals h) = total_revenue (calc_totals h) - cogs_value h
   \<and> net_income (calc_totals h) = gross_profit (calc_totals h) - total_expenses (calc_totals h)
   \<and> total_revenue (calc_totals h) = sum_list (map snd (revenue_items h))
   \<and> total_expenses (calc_totals h) = sum_list (map snd (expense_items h))"
  by (simp add: calc_totals_def Let_def)

theorem totals_are_differences_witness:
  "gross_profit (calc_totals \<lparr>revenue_items = [(''A'', 30)], cogs_value = 50,
       expense_items = [(''R&D'', 20)]\<rparr>) = - 20
   \<and> net_income (calc_totals \<lparr>revenue_items = [(''A'', 30)], cogs_value = 50,
       expense_items = [(''R&D'', 20)]\<rparr>) = - 40"
  using totals_are_differences [of "\<lparr>revenue_items = [(''A'', 30)], cogs_value = 50,
       expense_items = [(''R&D'', 20)]\<rparr>"]
  by simp

text \<open>
  C10, as stated, fails: a revenue item that is itself named like the Net Income label puts
  that label into the node list although the net income is negative.
\<close>

theorem net_income_node_counterexample:
  "build (TRANS English)
     \<lparr>revenue_items = [(''Net Income'', 10)], cogs_value = 20, expense_items = []\<rparr>
   = Some \<lparr>labels = [''Total Revenue'', ''Net Income'', ''Cost of Revenue (COGS)'', ''Gross Profit''],
           source_indices = [1, 0], target_indices = [0, 2], values_list = [10, 20]\<rparr>
   \<and> net_income (calc_totals
        \<lparr>revenue_items = [(''Net Income'', 10)], cogs_value = 20, expense_items = []\<rparr>) = - 10
   \<and> t_net_income (TRANS English) = ''Net Income''"
  by (simp add: build_def build_flows_def calc_totals_def get_idx_def add_link_def empty_lists_def)

text \<open>
  C10, amended. The Net Income label is in the node list if and only if the net income is
  positive, or a revenue or expense item with a positive value bears that label as its name,
  or the label is also one of the three other aggregate labels. Without such a clash of
  names, a break-even or loss-making input has no Net Income node.
\<close>

theorem net_income_node_iff:
  "\<exists>g. build t h = Some g
     \<and> (t_net_income t \<in> set (labels g) \<longleftrightarrow>
          0 < net_income (calc_totals h)
          \<or> t_net_income t \<in> {t_total_revenue t, t_cogs_label t, t_gross_profit t}
          \<or> (\<exists>p \<in> set (revenue_items h) \<union> set (expense_items h).
                0 < snd p \<and> fst p = t_net_income t))"
proof -
  have "t_net_income t \<in> set (register [] (requests t h)) \<longleftrightarrow>
          0 < net_income (calc_totals h)
          \<or> t_net_income t \<in> {t_total_revenue t, t_cogs_label t, t_gross_profit t}
          \<or> (\<exists>p \<in> set (revenue_items h) \<union> set (expense_items h).
                0 < snd p \<and> fst p = t_net_income t)"
    by (simp add: set_register set_requests positive_names bex_Un)
  then show ?thesis
    by (simp add: build_closed_form labels_lists_of)
qed

theorem net_income_node_iff_witness:
  "(\<exists>g. build (TRANS English)
          \<lparr>revenue_items = [(''A'', 30)], cogs_value = 50, expense_items = [(''R&D'', 20)]\<rparr>
        = Some g \<and> ''Net Income'' \<notin> set (labels g))
   \<and> (\<exists>g. build (TRANS English)
          \<lparr>revenue_items = [(''A'', 100), (''B'', 50)], cogs_value = 60,
           expense_items = [(''R&D'', 20)]\<rparr>
        = Some g \<and> ''Net Income'' \<in> set (labels g))"
  using net_income_node_iff [of "TRANS English"
      "\<lparr>revenue_items = [(''A'', 30)], cogs_value = 50, expense_items = [(''R&D'', 20)]\<rparr>"]
    net_income_node_iff [of "TRANS English"
      "\<lparr>revenue_items = [(''A'', 100), (''B'', 50)], cogs_value = 60,
        expense_items = [(''R&D'', 20)]\<rparr>"]
  by (auto simp: calc_totals_def)

text \<open>
  C3, as stated, fails: the indices of Total Revenue, of the cost of revenue and of Gross
  Profit are requested before any guard, so an input whose values are all zero has three
  nodes and no edge.
\<close>

theorem unreferenced_nodes_counterexample:
  "build (TRANS English)
     \<lparr>revenue_items = [(''A'', 0)], cogs_value = 0, expense_items = [(''R&D'', 0)]\<rparr>
   = Some \<lparr>labels = [''Total Revenue'', ''Cost of Revenue (COGS)'', ''Gross Profit''],
           source_indices = [], target_indices = [], values_list = []\<rparr>"
  by (simp add: build_def build_flows_def calc_totals_def get_idx_def add_link_def empty_lists_def)

text \<open>
  C3, amended. The labels of the result are pairwise different. The three labels Total
  Revenue, cost of revenue and Gross Profit are always nodes, referenced or not. Every other
  node is an end of at least one edge: the node of an item and the Net Income node are
  created only for an edge. When every item value is zero and the cost of revenue is zero,
  the nodes are exactly the three aggregate labels and there is no edge.
\<close>

theorem nodes_referenced_or_aggregate:
  "\<exists>g. build t h = Some g
     \<and> distinct (labels g)
     \<and> {t_total_revenue t, t_cogs_label t, t_gross_profit t} \<subseteq> set (labels g)
     \<and> (\<forall>i < length (labels g).
           labels g ! i \<notin> {t_total_revenue t, t_cogs_label t, t_gross_profit t}
           \<longrightarrow> i \<in> set (source_indices g) \<union> set (target_indices g))
     \<and> ((\<forall>p \<in> set (revenue_items h) \<union> set (expense_items h). snd p = 0) \<and> cogs_value h = 0
           \<longrightarrow> set (labels g) = {t_total_revenue t, t_cogs_label t, t_gross_profit t}
               \<and> edges g = [])"
proof -
  let ?L = "register [] (requests t h)"
  let ?E = "edge_order_spec t h"
  let ?g = "lists_of ?L ?L ?E"
  let ?A = "{t_total_revenue t, t_cogs_label t, t_gross_profit t}"
  have b: "build t h = Some ?g" by (rule build_closed_form)
  have d: "distinct (labels ?g)" by (simp add: labels_lists_of distinct_registered)
  have a: "?A \<subseteq> set (labels ?g)"
    by (simp add: labels_lists_of set_register set_requests)
  have r: "\<forall>i < length (labels ?g). labels ?g ! i \<notin> ?A
             \<longrightarrow> i \<in> set (source_indices ?g) \<union> set (target_indices ?g)"
  proof (intro allI impI)
    fix i assume i: "i < length (labels ?g)" and na: "labels ?g ! i \<notin> ?A"
    let ?x = "?L ! i"
    from i have iL: "i < length ?L" by (simp add: labels_lists_of)
    then have "?x \<in> set ?L" by simp
    then have "?x \<in> set (requests t h)" by (simp add: set_register)
    moreover from na have "?x \<notin> ?A" by (simp add: labels_lists_of)
    ultimately obtain e where e: "e \<in> set ?E" and "fst e = ?x \<or> fst (snd e) = ?x"
      using requested_is_end by blast
    moreover have "pos ?L ?x = i" using distinct_registered iL by (rule pos_nth)
    ultimately have "pos ?L (fst e) = i \<or> pos ?L (fst (snd e)) = i" by auto
    with e show "i \<in> set (source_indices ?g) \<union> set (target_indices ?g)"
      by (auto simp: sources_lists_of targets_lists_of image_iff)
  qed
  have z: "(\<forall>p \<in> set (revenue_items h) \<union> set (expense_items h). snd p = 0) \<and> cogs_value h = 0
           \<longrightarrow> set (labels ?g) = ?A \<and> edges ?g = []"
  proof (intro impI)
    assume z: "(\<forall>p \<in> set (revenue_items h) \<union> set (expense_items h). snd p = 0) \<and> cogs_value h = 0"
    then have zr: "\<forall>p \<in> set (revenue_items h). snd p = 0"
      and ze: "\<forall>p \<in> set (expense_items h). snd p = 0" and zc: "cogs_value h = 0" by auto
    have pr: "positive (revenue_items h) = []" using zr by (rule positive_zero)
    have pe: "positive (expense_items h) = []" using ze by (rule positive_zero)
    have gp: "gross_profit (calc_totals h) = 0" and ni: "net_income (calc_totals h) = 0"
      using sum_list_zero[OF zr] sum_list_zero[OF ze] zc by (simp_all add: calc_totals_def)
    have "?E = []" by (simp add: edge_order_spec_totals pr pe gp ni zc)
    moreover have "set ?L = ?A" by (simp add: set_register set_requests pr pe ni)
    ultimately show "set (labels ?g) = ?A \<and> edges ?g = []"
      by (simp add: labels_lists_of edges_lists_of)
  qed
  from b d a r z show ?thesis by blast
qed

theorem nodes_referenced_or_aggregate_witness:
  "(\<exists>g. build (TRANS English)
          \<lparr>revenue_items = [(''A'', 0)], cogs_value = 0, expense_items = [(''R&D'', 0)]\<rparr> = Some g
      \<and> set (labels g) = {''Total Revenue'', ''Cost of Revenue (COGS)'', ''Gross Profit''}
      \<and> edges g = [])
   \<and> (\<exists>g. build (TRANS English)
          \<lparr>revenue_items = [(''A'', 100), (''B'', 50)], cogs_value = 60,
           expense_items = [(''R&D'', 20)]\<rparr> = Some g
      \<and> 1 < length (labels g) \<and> labels g ! 1 = ''A''
      \<and> 1 \<in> set (source_indices g) \<union> set (target_indices g))"
proof -
  have z: "\<forall>p \<in> set (revenue_items \<lparr>revenue_items = [(''A'', 0)], cogs_value = 0,
                expense_items = [(''R&D'', 0)]\<rparr>)
             \<union> set (expense_items \<lparr>revenue_items = [(''A'', 0)], cogs_value = 0,
                expense_items = [(''R&D'', 0)]\<rparr>). snd p = (0::real)"
    by simp
  have first: "\<exists>g. build (TRANS English)
          \<lparr>revenue_items = [(''A'', 0)], cogs_value = 0, expense_items = [(''R&D'', 0)]\<rparr> = Some g
      \<and> set (labels g) = {''Total Revenue'', ''Cost of Revenue (COGS)'', ''Gross Profit''}
      \<and> edges g = []"
    using z nodes_referenced_or_aggregate [of "TRANS English"
      "\<lparr>revenue_items = [(''A'', 0)], cogs_value = 0, expense_items = [(''R&D'', 0)]\<rparr>"]
    by auto
  have ev: "build (TRANS English)
          \<lparr>revenue_items = [(''A'', 100), (''B'', 50)], cogs_value = 60,
           expense_items = [(''R&D'', 20)]\<rparr>
        = Some \<lparr>labels = [''Total Revenue'', ''A'', ''B'', ''Cost of Revenue (COGS)'',
                          ''Gross Profit'', ''R&D'', ''Net Income''],
                source_indices = [1, 2, 0, 0, 4, 4], target_indices = [0, 0, 3, 4, 5, 6],
                values_list = [100, 50, 60, 90, 20, 70]\<rparr>"
    by (simp add: build_def build_flows_def calc_totals_def get_idx_def add_link_def
        empty_lists_def)
  have second: "\<exists>g. build (TRANS English)
          \<lparr>revenue_items = [(''A'', 100), (''B'', 50)], cogs_value = 60,
           expense_items = [(''R&D'', 20)]\<rparr> = Some g
      \<and> 1 < length (labels g) \<and> labels g ! 1 = ''A''
      \<and> 1 \<in> set (source_indices g) \<union> set (target_indices g)"
    using nodes_referenced_or_aggregate [of "TRANS English"
      "\<lparr>revenue_items = [(''A'', 100), (''B'', 50)], cogs_value = 60,
        expense_items = [(''R&D'', 20)]\<rparr>"]
    unfolding ev by simp
  from first second show ?thesis by (rule conjI)
qed

text \<open>
  C2, as stated, fails: with a gross profit of -20 the edge from Total Revenue to Gross
  Profit is left out, but the edge from Gross Profit to the expense item is emitted all
  the same. The loop over the expense items does not look at the gross profit.
\<close>

theorem loss_keeps_expense_edges_counterexample:
  "gross_profit (calc_totals
      \<lparr>revenue_items = [(''A'', 30)], cogs_value = 50, expense_items = [(''R&D'', 20)]\<rparr>) = - 20
   \<and> build (TRANS English)
       \<lparr>revenue_items = [(''A'', 30)], cogs_value = 50, expense_items = [(''R&D'', 20)]\<rparr>
     = Some \<lparr>labels = [''Total Revenue'', ''A'', ''Cost of Revenue (COGS)'', ''Gross Profit'',
                       ''R&D''],
             source_indices = [1, 0, 3], target_indices = [0, 2, 4],
             values_list = [30, 50, 20]\<rparr>
   \<and> named_edges \<lparr>labels = [''Total Revenue'', ''A'', ''Cost of Revenue (COGS)'',
                             ''Gross Profit'', ''R&D''],
             source_indices = [1, 0, 3], target_indices = [0, 2, 4],
             values_list = [30, 50, 20]\<rparr>
     = [(''A'', ''Total Revenue'', 30), (''Total Revenue'', ''Cost of Revenue (COGS)'', 50),
        (''Gross Profit'', ''R&D'', 20)]"
  by (simp add: build_def build_flows_def calc_totals_def get_idx_def add_link_def
      empty_lists_def named_edges_def edges_def)

text \<open>
  C2, amended. When the gross profit is not positive, the edges are the revenue edges, the
  cost-of-revenue edge when the cost is positive, then one edge from Gross Profit to each
  expense item with a positive value, and the edge from Gross Profit to Net Income when the
  net income is positive; there is no edge from Total Revenue to Gross Profit. With total
  expenses that are not negative the net income is not positive either, so the Net Income
  edge is absent.
\<close>

theorem loss_edges:
  assumes "gross_profit (calc_totals h) \<le> 0"
  shows "\<exists>g. build t h = Some g
     \<and> named_edges g =
         map (\<lambda>p. (fst p, t_total_revenue t, snd p)) (positive (revenue_items h))
         @ (if cogs_value h > 0 then [(t_total_revenue t, t_cogs_label t, cogs_value h)] else [])
         @ map (\<lambda>p. (t_gross_profit t, fst p, snd p)) (positive (expense_items h))
         @ (if net_income (calc_totals h) > 0
            then [(t_gross_profit t, t_net_income t, net_income (calc_totals h))] else [])
     \<and> (0 \<le> total_expenses (calc_totals h) \<longrightarrow> net_income (calc_totals h) \<le> 0)"
proof -
  have ni: "net_income (calc_totals h) = gross_profit (calc_totals h) - total_expenses (calc_totals h)"
    by (simp add: calc_totals_def Let_def)
  have "named_edges (lists_of (register [] (requests t h)) (register [] (requests t h))
           (edge_order_spec t h)) = edge_order_spec t h"
    using spec_ends_registered by (rule named_edges_lists_of)
  moreover have "edge_order_spec t h =
         map (\<lambda>p. (fst p, t_total_revenue t, snd p)) (positive (revenue_items h))
         @ (if cogs_value h > 0 then [(t_total_revenue t, t_cogs_label t, cogs_value h)] else [])
         @ map (\<lambda>p. (t_gross_profit t, fst p, snd p)) (positive (expense_items h))
         @ (if net_income (calc_totals h) > 0
            then [(t_gross_profit t, t_net_income t, net_income (calc_totals h))] else [])"
    using assms by (simp add: edge_order_spec_totals)
  moreover have "0 \<le> total_expenses (calc_totals h) \<longrightarrow> net_income (calc_totals h) \<le> 0"
    using assms ni by simp
  ultimately show ?thesis
    by (simp add: build_closed_form)
qed

theorem loss_edges_witness:
  "\<exists>g. build (TRANS English)
          \<lparr>revenue_items = [(''A'', 30)], cogs_value = 50, expense_items = [(''R&D'', 20)]\<rparr> = Some g
     \<and> named_edges g =
         [(''A'', ''Total Revenue'', 30), (''Total Revenue'', ''Cost of Revenue (COGS)'', 50),
          (''Gross Profit'', ''R&D'', 20)]"
proof -
  have gp: "gross_profit (calc_totals
      \<lparr>revenue_items = [(''A'', 30)], cogs_value = 50, expense_items = [(''R&D'', 20)]\<rparr>) \<le> 0"
    by (simp add: calc_totals_def)
  show ?thesis
    using loss_edges [OF gp, of "TRANS English"]
    by (auto simp: positive_def calc_totals_def)
qed

text \<open>
  C9. The label registry behind \<open>get_idx\<close>. A label asked for again, after any further
  requests, gets the index it got the first time. Requests for pairwise different labels on
  the empty registry return the indices 0, 1, ... in the order of the requests, and the
  label list is the list of the requests. The flow construction uses one registry for the
  whole graph: a name that is both a revenue item and an expense item with positive values
  has one index, the source of its revenue edge and the target of its expense edge.
\<close>

theorem registry_stable_and_shared:
  "(\<exists>i s1 js s2. get_idx n s = Some (i, s1) \<and> get_idx_all ms s1 = Some (js, s2)
                  \<and> get_idx n s2 = Some (i, s2))
   \<and> (distinct ns \<longrightarrow>
        get_idx_all ns empty_lists = Some ([0..<length ns], empty_lists\<lparr>labels := ns\<rparr>))
   \<and> ((name, v) \<in> set (revenue_items h) \<and> 0 < v \<and> (name, w) \<in> set (expense_items h) \<and> 0 < w
        \<longrightarrow> (\<exists>g i. build t h = Some g \<and> distinct (labels g)
                 \<and> i < length (labels g) \<and> labels g ! i = name
                 \<and> (i, pos (labels g) (t_total_revenue t), v) \<in> set (edges g)
                 \<and> (pos (labels g) (t_gross_profit t), i, w) \<in> set (edges g)))"
  using get_idx_again[of n s ms] get_idx_all_distinct[of ns] shared_registry[of name v h w t]
  by blast

theorem registry_stable_and_shared_witness:
  "(\<exists>i s1 js s2. get_idx ''Tax'' empty_lists = Some (i, s1)
        \<and> get_idx_all [''A'', ''B''] s1 = Some (js, s2) \<and> get_idx ''Tax'' s2 = Some (i, s2))
   \<and> get_idx_all [''A'', ''B'', ''C''] empty_lists
        = Some ([0, 1, 2], empty_lists\<lparr>labels := [''A'', ''B'', ''C'']\<rparr>)
   \<and> (\<exists>g i. build (TRANS English)
               \<lparr>revenue_items = [(''A'', 100), (''Tax'', 10)], cogs_value = 0,
                expense_items = [(''Tax'', 5)]\<rparr> = Some g
          \<and> labels g ! i = ''Tax''
          \<and> (i, pos (labels g) ''Total Revenue'', 10) \<in> set (edges g)
          \<and> (pos (labels g) ''Gross Profit'', i, 5) \<in> set (edges g))"
proof -
  have d: "distinct [''A'', ''B'', ''C'']" by simp
  have u: "[0..<length [''A'', ''B'', ''C'']] = [0, 1, 2]" by (simp add: upt_rec)
  have p: "(''Tax'', 10) \<in> set (revenue_items \<lparr>revenue_items = [(''A'', 100), (''Tax'', 10)],
                cogs_value = 0, expense_items = [(''Tax'', 5)]\<rparr>) \<and> (0::real) < 10
           \<and> (''Tax'', 5) \<in> set (expense_items \<lparr>revenue_items = [(''A'', 100), (''Tax'', 10)],
                cogs_value = 0, expense_items = [(''Tax'', 5)]\<rparr>) \<and> (0::real) < 5"
    by simp
  note th = registry_stable_and_shared [of "''Tax''" empty_lists "[''A'', ''B'']"
      "[''A'', ''B'', ''C'']" "''Tax''" 10
      "\<lparr>revenue_items = [(''A'', 100), (''Tax'', 10)], cogs_value = 0,
        expense_items = [(''Tax'', 5)]\<rparr>" 5 "TRANS English"]
  from th have a: "\<exists>i s1 js s2. get_idx ''Tax'' empty_lists = Some (i, s1)
        \<and> get_idx_all [''A'', ''B''] s1 = Some (js, s2) \<and> get_idx ''Tax'' s2 = Some (i, s2)"
    by (rule conjunct1)
  from th d have b: "get_idx_all [''A'', ''B'', ''C''] empty_lists
        = Some ([0, 1, 2], empty_lists\<lparr>labels := [''A'', ''B'', ''C'']\<rparr>)"
    unfolding u[symmetric] by blast
  from th p have "\<exists>g i. build (TRANS English)
               \<lparr>revenue_items = [(''A'', 100), (''Tax'', 10)], cogs_value = 0,
                expense_items = [(''Tax'', 5)]\<rparr> = Some g \<and> distinct (labels g)
          \<and> i < length (labels g) \<and> labels g ! i = ''Tax''
          \<and> (i, pos (labels g) (t_total_revenue (TRANS English)), 10) \<in> set (edges g)
          \<and> (pos (labels g) (t_gross_profit (TRANS English)), i, 5) \<in> set (edges g)"
    by blast
  then have c: "\<exists>g i. build (TRANS English)
               \<lparr>revenue_items = [(''A'', 100), (''Tax'', 10)], cogs_value = 0,
                expense_items = [(''Tax'', 5)]\<rparr> = Some g
          \<and> labels g ! i = ''Tax''
          \<and> (i, pos (labels g) ''Total Revenue'', 10) \<in> set (edges g)
          \<and> (pos (labels g) ''Gross Profit'', i, 5) \<in> set (edges g)"
    by (simp del: TRANS.simps add: TRANS.simps(1)[THEN arg_cong, of t_total_revenue]
        TRANS.simps(1)[THEN arg_cong, of t_gross_profit]) blast
  from a b c show ?thesis by blast
qed

text \<open>
  C8. The loop body treats a row as the keyword table says: the type string is lower-cased,
  the categories are tried in the order Revenue, CostOfRevenue, Expense, a category matches
  when one of its keywords is a substring, the first match decides where the row goes, and a
  row that matches nothing leaves the data holders as they are. The body is a total
  function: no type string makes it fail. A string with keywords of several categories goes
  to the first of them, as ``Cost of REVENUE'' in the witness.
\<close>

theorem rows_classified_by_table:
  "process_row (name, val, raw) h = store (classify_spec raw) name val h"
  by (simp add: process_row_def classify_spec_def keyword_table_def str_in_sublist Let_def)

theorem rows_classified_by_table_witness:
  "classify_spec ''Cost of REVENUE'' = Revenue
   \<and> process_row (''X'', 5, ''Cost of REVENUE'') empty_holders
       = \<lparr>revenue_items = [(''X'', 5)], cogs_value = 0, expense_items = []\<rparr>
   \<and> classify_spec ''Vergi / Tax'' = Expense
   \<and> classify_spec ''Misc'' = Unknown
   \<and> process_row (''Y'', 7, ''Misc'') empty_holders = empty_holders"
proof -
  have c1: "classify_spec ''Cost of REVENUE'' = Revenue"
    by (simp add: classify_spec_def keyword_table_def lower_def lower_char_def
        str_in_sublist[symmetric])
  have c2: "classify_spec ''Vergi / Tax'' = Expense"
    by (simp add: classify_spec_def keyword_table_def lower_def lower_char_def
        str_in_sublist[symmetric])
  have c3: "classify_spec ''Misc'' = Unknown"
    by (simp add: classify_spec_def keyword_table_def lower_def lower_char_def
        str_in_sublist[symmetric])
  have p1: "process_row (''X'', 5, ''Cost of REVENUE'') empty_holders
       = \<lparr>revenue_items = [(''X'', 5)], cogs_value = 0, expense_items = []\<rparr>"
    using rows_classified_by_table [of "''X''" 5 "''Cost of REVENUE''" empty_holders]
    by (simp add: c1 empty_holders_def)
  have p2: "process_row (''Y'', 7, ''Misc'') empty_holders = empty_holders"
    using rows_classified_by_table [of "''Y''" 7 "''Misc''" empty_holders]
    by (simp add: c3)
  from c1 p1 c2 c3 p2 show ?thesis by simp
qed

text \<open>
  C6, as stated, fails when two rows of one category share a name: the items are kept in
  a dictionary keyed by the name, so the second row replaces the value of the first. Two
  revenue rows named A, with values 10 and 5, give a total revenue of 5, not 15; the same
  holds when the manual tab adds its items with value zero.
\<close>

theorem duplicate_names_counterexample:
  "sum_list (map snd (entries Revenue [(''A'', 10, ''Revenue''), (''A'', 5, ''Revenue'')])) = 15
   \<and> revenue_items (load_rows [(''A'', 10, ''Revenue''), (''A'', 5, ''Revenue'')] empty_holders)
       = [(''A'', 5)]
   \<and> total_revenue (calc_totals
         (load_rows [(''A'', 10, ''Revenue''), (''A'', 5, ''Revenue'')] empty_holders)) = 5
   \<and> total_revenue (calc_totals
         (collect_inputs (Some [(''A'', 10, ''Revenue''), (''A'', 5, ''Revenue'')])
            \<lparr>r1_name = ''Product A'', r1_val = 0, r2_name = ''Services'', r2_val = 0,
             cogs_input = 0, e1_name = ''R&D'', e1_val = 0\<rparr>)) = 5"
proof -
  have c: "classify_spec ''Revenue'' = Revenue"
    by (simp add: classify_spec_def keyword_table_def lower_def lower_char_def
        str_in_sublist[symmetric])
  have p: "\<And>n v h. process_row (n, v, ''Revenue'') h
              = h\<lparr>revenue_items := AList.update n v (revenue_items h)\<rparr>"
    by (simp add: process_row_store c)
  show ?thesis
    by (simp add: entries_def c p empty_holders_def calc_totals_def collect_inputs_def
        manual_tab_def)
qed

text \<open>
  C6, amended. After the upload loop, started on empty data holders, the total revenue
  computed from the holders is the sum, over the different names of the rows classified
  Revenue, of the value of the last such row with that name, and likewise the total expenses
  for the rows classified Expense; the cost of revenue accumulated by the loop is the sum of
  the values of all rows classified CostOfRevenue; rows of unknown type add to none of them.
  When no two Revenue rows share a name the total revenue is the sum of the values of all
  Revenue rows, and likewise for the Expense rows.
\<close>

theorem totals_of_loaded_rows:
  "total_revenue (calc_totals (load_rows rows empty_holders))
     = (\<Sum>n \<in> fst ` set (entries Revenue rows). last_value (entries Revenue rows) n)
   \<and> cogs_value (load_rows rows empty_holders) = sum_list (map snd (entries CostOfRevenue rows))
   \<and> total_expenses (calc_totals (load_rows rows empty_holders))
     = (\<Sum>n \<in> fst ` set (entries Expense rows). last_value (entries Expense rows) n)
   \<and> (distinct (map fst (entries Revenue rows)) \<longrightarrow>
        total_revenue (calc_totals (load_rows rows empty_holders))
          = sum_list (map snd (entries Revenue rows)))
   \<and> (distinct (map fst (entries Expense rows)) \<longrightarrow>
        total_expenses (calc_totals (load_rows rows empty_holders))
          = sum_list (map snd (entries Expense rows)))"
proof -
  have h: "load_rows rows empty_holders =
     \<lparr>revenue_items = assign_all [] (entries Revenue rows),
      cogs_value = sum_list (map snd (entries CostOfRevenue rows)),
      expense_items = assign_all [] (entries Expense rows)\<rparr>"
    using load_rows_eq[of rows empty_holders] by (simp add: empty_holders_def)
  have tr: "\<And>x. total_revenue (calc_totals x) = sum_list (map snd (revenue_items x))"
    and te: "\<And>x. total_expenses (calc_totals x) = sum_list (map snd (expense_items x))"
    by (simp_all add: calc_totals_def Let_def)
  show ?thesis
    unfolding h tr te by (simp add: sum_assign_all assign_all_fresh)
qed

theorem totals_of_loaded_rows_witness:
  "total_revenue (calc_totals (load_rows
       [(''iPhone'', 46, ''Revenue''), (''Services'', 25, ''Revenue''),
        (''Cost of Sales'', 51, ''COGS''), (''R&D'', 8, ''Expense''), (''Tax'', 13, ''Expense''),
        (''Note'', 99, ''Other'')] empty_holders)) = 71
   \<and> cogs_value (load_rows
       [(''iPhone'', 46, ''Revenue''), (''Services'', 25, ''Revenue''),
        (''Cost of Sales'', 51, ''COGS''), (''R&D'', 8, ''Expense''), (''Tax'', 13, ''Expense''),
        (''Note'', 99, ''Other'')] empty_holders) = 51
   \<and> total_expenses (calc_totals (load_rows
       [(''iPhone'', 46, ''Revenue''), (''Services'', 25, ''Revenue''),
        (''Cost of Sales'', 51, ''COGS''), (''R&D'', 8, ''Expense''), (''Tax'', 13, ''Expense''),
        (''Note'', 99, ''Other'')] empty_holders)) = 21"
proof -
  let ?rows = "[(''iPhone'', 46, ''Revenue''), (''Services'', 25, ''Revenue''),
        (''Cost of Sales'', 51, ''COGS''), (''R&D'', 8, ''Expense''), (''Tax'', 13, ''Expense''),
        (''Note'', 99, ''Other'')] :: row list"
  have c: "classify_spec ''Revenue'' = Revenue" "classify_spec ''COGS'' = CostOfRevenue"
    "classify_spec ''Expense'' = Expense" "classify_spec ''Other'' = Unknown"
    by (simp_all add: classify_spec_def keyword_table_def lower_def lower_char_def
        str_in_sublist[symmetric])
  have r: "entries Revenue ?rows = [(''iPhone'', 46), (''Services'', 25)]"
    and g: "entries CostOfRevenue ?rows = [(''Cost of Sales'', 51)]"
    and e: "entries Expense ?rows = [(''R&D'', 8), (''Tax'', 13)]"
    by (simp_all add: entries_def c)
  have dr: "distinct (map fst (entries Revenue ?rows))"
    and de: "distinct (map fst (entries Expense ?rows))"
    by (simp_all add: r e)
  from totals_of_loaded_rows [of ?rows] dr de show ?thesis
    by (simp add: r g e)
qed

end
